theory Spec2Isabelle
  imports Main "HOL-Library.Char_ord" "HOL-Library.List_Lexorder"
begin

section \<open>Python strings\<close>

text \<open>
  A Python \<open>str\<close> is modelled as a \<open>string\<close> whose characters are the code points
  U+0000 to U+00FF, so \<open>length\<close> is Python's \<open>len\<close>. The character classes below are
  those of Python 3 on that range: \<open>str.isspace\<close>, the line boundaries of
  \<open>str.splitlines\<close>, and the classes \<open>\\w\<close> and \<open>\\d\<close> of \<open>re\<close> on \<open>str\<close> patterns.
\<close>

definition code :: "char \<Rightarrow> int" where
  "code c = of_char c"

definition isspace :: "char \<Rightarrow> bool" where
  "isspace c = (let n = code c in
     (9 \<le> n \<and> n \<le> 13) \<or> (28 \<le> n \<and> n \<le> 32) \<or> n = 133 \<or> n = 160)"

definition is_linebreak :: "char \<Rightarrow> bool" where
  "is_linebreak c = (let n = code c in
     (10 \<le> n \<and> n \<le> 13) \<or> (28 \<le> n \<and> n \<le> 30) \<or> n = 133)"

definition isword :: "char \<Rightarrow> bool" where
  "isword c = (let n = code c in
     (48 \<le> n \<and> n \<le> 57) \<or> (65 \<le> n \<and> n \<le> 90) \<or> n = 95 \<or> (97 \<le> n \<and> n \<le> 122) \<or>
     n = 170 \<or> n = 178 \<or> n = 179 \<or> n = 181 \<or> n = 185 \<or> n = 186 \<or>
     (188 \<le> n \<and> n \<le> 190) \<or> (192 \<le> n \<and> n \<le> 214) \<or> (216 \<le> n \<and> n \<le> 246) \<or>
     (248 \<le> n \<and> n \<le> 255))"

definition isdigit :: "char \<Rightarrow> bool" where
  "isdigit c = (let n = code c in 48 \<le> n \<and> n \<le> 57)"

definition lower_chr :: "char \<Rightarrow> char" where
  "lower_chr c = (let n = code c in
     if (65 \<le> n \<and> n \<le> 90) \<or> (192 \<le> n \<and> n \<le> 214) \<or> (216 \<le> n \<and> n \<le> 222)
     then char_of (n + 32) else c)"

definition lower :: "string \<Rightarrow> string" where
  "lower s = map lower_chr s"

text \<open>
  \<open>str.upper\<close>: U+00DF becomes the two characters \<open>SS\<close>. The upper-case images of
  U+00B5 and U+00FF lie outside the modelled range (U+039C and U+0178); these two
  characters are left as they are, which no comparison with an ASCII tag can see.
\<close>

definition upper_chr :: "char \<Rightarrow> string" where
  "upper_chr c = (let n = code c in
     if (97 \<le> n \<and> n \<le> 122) \<or> (224 \<le> n \<and> n \<le> 246) \<or> (248 \<le> n \<and> n \<le> 254)
     then [char_of (n - 32)]
     else if n = 223 then ''SS'' else [c])"

definition upper :: "string \<Rightarrow> string" where
  "upper s = concat (map upper_chr s)"

definition strip :: "string \<Rightarrow> string" where
  "strip s = rev (dropWhile isspace (rev (dropWhile isspace s)))"

definition startswith :: "string \<Rightarrow> string \<Rightarrow> bool" where
  "startswith s p = (take (length p) s = p)"

text \<open>The substring test \<open>k in s\<close>.\<close>

fun str_in :: "string \<Rightarrow> string \<Rightarrow> bool" where
  "str_in k [] = (k = [])"
| "str_in k (c # cs) = (startswith (c # cs) k \<or> str_in k cs)"

text \<open>
  \<open>str.splitlines()\<close>: the text is cut at every line boundary, \<open>\\r\\n\<close> counting as
  one; the boundaries are dropped and a boundary at the very end opens no further line.
\<close>

fun splitlines_from :: "string \<Rightarrow> string \<Rightarrow> string list" where
  "splitlines_from cur [] = (if cur = [] then [] else [cur])"
| "splitlines_from cur (c # cs) =
     (if is_linebreak c
      then (case cs of
              d # ds \<Rightarrow> if code c = 13 \<and> code d = 10
                        then cur # splitlines_from [] ds
                        else cur # splitlines_from [] cs
            | [] \<Rightarrow> cur # splitlines_from [] cs)
      else splitlines_from (cur @ [c]) cs)"

definition splitlines :: "string \<Rightarrow> string list" where
  "splitlines s = splitlines_from [] s"

text \<open>\<open>str.split()\<close> without arguments: the maximal runs of non-whitespace characters.\<close>

fun split_from :: "string \<Rightarrow> string \<Rightarrow> string list" where
  "split_from cur [] = (if cur = [] then [] else [cur])"
| "split_from cur (c # cs) =
     (if isspace c
      then (if cur = [] then split_from [] cs else cur # split_from [] cs)
      else split_from (cur @ [c]) cs)"

definition split :: "string \<Rightarrow> string list" where
  "split s = split_from [] s"

text \<open>The slice \<open>s[-n:]\<close> for a positive \<open>n\<close>, and \<open>s[:n]\<close> on lists.\<close>

definition slice_last :: "nat \<Rightarrow> 'a list \<Rightarrow> 'a list" where
  "slice_last n s = drop (length s - n) s"

section \<open>Regular expressions\<close>

text \<open>
  The fragment of \<open>re\<close> that the patterns of \<open>parser_utils.py\<close> use: literal characters
  (all that \<open>re.escape\<close> produces), \<open>\\d\<close>, \<open>\\b\<close>, concatenation and alternation.
  \<open>rmatch r s i\<close> lists the positions at which a match of \<open>r\<close> that starts at position
  \<open>i\<close> of \<open>s\<close> can end; \<open>re.search\<close> is truthy when some start position has a match.
\<close>

datatype regex = Lit char | Digit | WordB | Eps | Cat regex regex | Or regex regex

definition at_boundary :: "string \<Rightarrow> nat \<Rightarrow> bool" where
  "at_boundary s i =
     ((0 < i \<and> i \<le> length s \<and> isword (s ! (i - 1))) \<noteq> (i < length s \<and> isword (s ! i)))"

primrec rmatch :: "regex \<Rightarrow> string \<Rightarrow> nat \<Rightarrow> nat list" where
  "rmatch (Lit c) s i = (if i < length s \<and> s ! i = c then [Suc i] else [])"
| "rmatch Digit s i = (if i < length s \<and> isdigit (s ! i) then [Suc i] else [])"
| "rmatch WordB s i = (if at_boundary s i then [i] else [])"
| "rmatch Eps s i = [i]"
| "rmatch (Cat r1 r2) s i = concat (map (rmatch r2 s) (rmatch r1 s i))"
| "rmatch (Or r1 r2) s i = rmatch r1 s i @ rmatch r2 s i"

definition re_search :: "regex \<Rightarrow> string \<Rightarrow> bool" where
  "re_search r s = list_ex (\<lambda>i. rmatch r s i \<noteq> []) [0..<Suc (length s)]"

definition re_escape :: "string \<Rightarrow> regex" where
  "re_escape s = foldr (\<lambda>c r. Cat (Lit c) r) s Eps"

text \<open>\<open>r"\\b" + re.escape(w) + r"\\b"\<close>\<close>

definition word_pattern :: "string \<Rightarrow> regex" where
  "word_pattern w = Cat WordB (Cat (re_escape w) WordB)"

text \<open>\<open>r"\\b(university|college|institute|school)\\b"\<close>\<close>

definition institution_pattern :: regex where
  "institution_pattern =
     Cat WordB (Cat (Or (re_escape ''university'') (Or (re_escape ''college'')
       (Or (re_escape ''institute'') (re_escape ''school'')))) WordB)"

text \<open>\<open>r"(19|20)\\d{2}"\<close>\<close>

definition year_pattern :: regex where
  "year_pattern = Cat (Or (re_escape ''19'') (re_escape ''20'')) (Cat Digit Digit)"

section \<open>Python values\<close>

datatype pyval = PNone | PInt int | PStr string | PList "pyval list"
  | PDict "(string \<times> pyval) list"

fun truthy :: "pyval \<Rightarrow> bool" where
  "truthy PNone = False"
| "truthy (PInt n) = (n \<noteq> 0)"
| "truthy (PStr s) = (s \<noteq> [])"
| "truthy (PList xs) = (xs \<noteq> [])"
| "truthy (PDict kvs) = (kvs \<noteq> [])"

text \<open>\<open>v.get(k)\<close> when \<open>v\<close> is a dict: the value, or \<open>None\<close> for a key not there.\<close>

definition dict_get :: "(string \<times> pyval) list \<Rightarrow> string \<Rightarrow> pyval" where
  "dict_get kvs k = (case map_of kvs k of Some v \<Rightarrow> v | None \<Rightarrow> PNone)"

section \<open>The question answerer: \<open>call_local_qa\<close>\<close>

text \<open>
  The module globals \<open>_models_loaded\<close> and \<open>qa_pipeline\<close>. A loaded pipeline is a
  function of the question, the context and \<open>top_k\<close> that returns a value or raises;
  \<open>Inl m\<close> is a raised exception \<open>e\<close> with \<open>str(e) = m\<close>.
\<close>

type_synonym pipeline = "string \<Rightarrow> string \<Rightarrow> int \<Rightarrow> string + pyval"

record models =
  models_loaded :: bool
  qa_pipeline :: "pipeline option"

definition max_context :: nat where
  "max_context = 20000"

text \<open>The loop over \<open>context.splitlines()\<close> that collects \<open>candidates\<close>.\<close>

fun qa_scan :: "string list \<Rightarrow> string list \<Rightarrow> string list \<Rightarrow> string list" where
  "qa_scan kws [] candidates = candidates"
| "qa_scan kws (line # rest) candidates =
     (if length (strip line) < 3 then qa_scan kws rest candidates
      else if list_ex (\<lambda>word. str_in word (lower line)) kws
           then qa_scan kws rest (candidates @ [strip line])
           else qa_scan kws rest candidates)"

definition no_answer :: string where
  "no_answer = ''No clear answer found in stored data.''"

definition heuristic_qa :: "string \<Rightarrow> string \<Rightarrow> pyval" where
  "heuristic_qa question context =
     (let q = lower question;
          candidates = qa_scan (take 3 (split q)) (splitlines context) []
      in if candidates \<noteq> [] then PDict [(''answer'', PStr (hd candidates))]
         else PDict [(''answer'', PStr no_answer)])"

definition call_local_qa :: "models \<Rightarrow> string \<Rightarrow> string \<Rightarrow> int \<Rightarrow> pyval" where
  "call_local_qa st question context top_k =
     (case (models_loaded st, qa_pipeline st) of
        (True, Some qa) \<Rightarrow>
          (let ctx = (if length context \<le> max_context then context
                      else slice_last max_context context)
           in case qa question ctx top_k of
                Inr res \<Rightarrow> res
              | Inl e \<Rightarrow> PDict [(''error'', PStr e)])
      | _ \<Rightarrow> heuristic_qa question context)"

section \<open>The HTTP handler \<open>ask_candidate\<close>\<close>

datatype http_exception = HTTPException nat string

text \<open>
  \<open>str(v)\<close>: a string is itself and \<open>None\<close> is \<open>None\<close>; the text of every other value
  (a Python \<open>repr\<close>) is left to the parameter \<open>repr\<close>.
\<close>

definition py_str :: "(pyval \<Rightarrow> string) \<Rightarrow> pyval \<Rightarrow> string" where
  "py_str repr v = (case v of PStr s \<Rightarrow> s | PNone \<Rightarrow> ''None'' | _ \<Rightarrow> repr v)"

text \<open>
  The chain of tests on \<open>hf_resp\<close> inside the \<open>try\<close> block: \<open>Inr\<close> is the value bound to
  \<open>answer\<close>, \<open>Inl m\<close> is the exception raised there, with \<open>str(e) = m\<close>.
\<close>

definition normalize_response :: "(pyval \<Rightarrow> string) \<Rightarrow> pyval \<Rightarrow> string + pyval" where
  "normalize_response repr hf_resp =
     (case hf_resp of
        PDict kvs \<Rightarrow>
          if truthy (dict_get kvs ''answer'') then Inr (dict_get kvs ''answer'')
          else if truthy (dict_get kvs ''error'') then Inl (py_str repr (dict_get kvs ''error''))
          else Inr (PStr (py_str repr hf_resp))
      | PList (first # others) \<Rightarrow>
          (case first of
             PDict kvs \<Rightarrow>
               if truthy (dict_get kvs ''answer'') then Inr (dict_get kvs ''answer'')
               else Inr (PStr (py_str repr first))
           | _ \<Rightarrow> Inr (PStr (py_str repr first)))
      | _ \<Rightarrow> Inr (PStr (py_str repr hf_resp)))"

text \<open>
  The handler. \<open>question\<close> is \<open>question.get("question")\<close> of the request body, \<open>None\<close>
  when the key is not there. The document store and the assembly of the context string
  are outside the model: \<open>doc_context\<close> is \<open>None\<close> when \<open>find_one\<close> finds no document
  and otherwise \<open>Some\<close> of the context string built from it.
\<close>

definition ask_candidate ::
  "(pyval \<Rightarrow> string) \<Rightarrow> models \<Rightarrow> string option \<Rightarrow> string \<Rightarrow> string option
     \<Rightarrow> http_exception + (string \<times> pyval) list" where
  "ask_candidate repr st doc_context candidate_id question =
     (case question of
        None \<Rightarrow> Inl (HTTPException 400 ''Missing 'question' in body'')
      | Some q \<Rightarrow>
          if q = [] then Inl (HTTPException 400 ''Missing 'question' in body'')
          else (case doc_context of
                  None \<Rightarrow> Inl (HTTPException 404 ''Candidate not found'')
                | Some context \<Rightarrow>
                    (case normalize_response repr (call_local_qa st q context 1) of
                       Inl e \<Rightarrow> Inl (HTTPException 500 (''QA failed: '' @ e))
                     | Inr answer \<Rightarrow>
                         Inr [(''candidate_id'', PStr candidate_id), (''question'', PStr q),
                              (''answer'', answer)])))"

section \<open>The field extractor: \<open>build_structured_fields\<close>\<close>

text \<open>
  An entity is a dict with the keys \<open>word\<close> and \<open>entity_group\<close>; each value is a
  string, \<open>None\<close>, or the key is not in the dict at all.
\<close>

datatype field = Absent | Null | Str string

record entity =
  word :: field
  entity_group :: field

datatype error = KeyError string

definition COMMON_SKILLS :: "string list" where
  "COMMON_SKILLS =
     [''python'', ''java'', ''c++'', ''c'', ''javascript'', ''sql'', ''nosql'', ''mongodb'',
      ''postgresql'', ''mysql'', ''pandas'', ''numpy'', ''scikit-learn'', ''tensorflow'',
      ''keras'', ''pytorch'', ''fastapi'', ''flask'', ''docker'', ''kubernetes'', ''aws'',
      ''gcp'', ''azure'', ''html'', ''css'', ''react'', ''node'', ''spark'', ''hadoop'']"

definition DEGREE_KEYWORDS :: "string list" where
  "DEGREE_KEYWORDS =
     [''bachelor'', ''bsc'', ''b.tech'', ''btech'', ''bs'', ''master'', ''msc'', ''m.tech'',
      ''mtech'', ''ms'', ''phd'', ''diploma'']"

definition role_keywords :: "string list" where
  "role_keywords =
     [''intern'', ''engineer'', ''manager'', ''associate'', ''analyst'', ''developer'']"

definition hobby_keywords :: "string list" where
  "hobby_keywords =
     [''reading'', ''travelling'', ''travel'', ''music'', ''photography'', ''gaming'',
      ''sports'', ''cricket'', ''football'']"

text \<open>
  \<open>ent.get("entity_group") and ent.get("entity_group").upper().startswith(tag)\<close>
\<close>

definition group_is :: "string \<Rightarrow> entity \<Rightarrow> bool" where
  "group_is tag ent =
     (case entity_group ent of
        Str g \<Rightarrow> g \<noteq> [] \<and> startswith (upper g) tag
      | _ \<Rightarrow> False)"

text \<open>The name loop: \<open>name\<close> starts as \<open>None\<close>; the first PER entity sets it and breaks.\<close>

fun find_name :: "entity list \<Rightarrow> field" where
  "find_name [] = Null"
| "find_name (ent # rest) =
     (if group_is ''PER'' ent
      then (case word ent of Absent \<Rightarrow> Null | v \<Rightarrow> v)
      else find_name rest)"

text \<open>\<open>name or ""\<close>\<close>

definition name_or_empty :: "field \<Rightarrow> string" where
  "name_or_empty name = (case name of Str s \<Rightarrow> s | _ \<Rightarrow> [])"

text \<open>
  The skills loop. The Python set \<open>found_skills\<close> is a list without repetition; its
  order does not matter, since the only use of the set is \<open>sorted(list(found_skills))\<close>.
\<close>

fun skills_loop :: "string list \<Rightarrow> string \<Rightarrow> string list \<Rightarrow> string list" where
  "skills_loop [] lower_text found_skills = found_skills"
| "skills_loop (skill # rest) lower_text found_skills =
     skills_loop rest lower_text
       (if re_search (word_pattern skill) lower_text
        then List.insert skill found_skills else found_skills)"

fun edu_loop :: "string list \<Rightarrow> string list \<Rightarrow> string list" where
  "edu_loop [] edu_lines = edu_lines"
| "edu_loop (line # rest) edu_lines =
     edu_loop rest
       (if list_ex (\<lambda>k. str_in k (lower line)) DEGREE_KEYWORDS
           \<or> re_search institution_pattern (lower line)
        then (if length (strip line) > 5 then edu_lines @ [strip line] else edu_lines)
        else edu_lines)"

text \<open>
  The comprehension \<open>[e["word"] for e in ner_entities if ...ORG...]\<close>: the subscript
  raises \<open>KeyError\<close> at an ORG entity without the key \<open>word\<close>.
\<close>

fun org_words :: "entity list \<Rightarrow> error + pyval list" where
  "org_words [] = Inr []"
| "org_words (e # es) =
     (if group_is ''ORG'' e
      then (case word e of
              Absent \<Rightarrow> Inl (KeyError ''word'')
            | Null \<Rightarrow> (case org_words es of Inl x \<Rightarrow> Inl x | Inr ws \<Rightarrow> Inr (PNone # ws))
            | Str s \<Rightarrow> (case org_words es of Inl x \<Rightarrow> Inl x | Inr ws \<Rightarrow> Inr (PStr s # ws)))
      else org_words es)"

fun exp_loop :: "string list \<Rightarrow> string list \<Rightarrow> string list" where
  "exp_loop [] experiences = experiences"
| "exp_loop (line # rest) experiences =
     (let l = strip line in
      if length l = 0 then exp_loop rest experiences
      else if re_search year_pattern l \<and> list_ex (\<lambda>k. str_in k (lower l)) role_keywords
           then exp_loop rest (experiences @ [l])
           else exp_loop rest experiences)"

text \<open>\<open>f"Worked at {o}"\<close>, for each \<open>o\<close> of \<open>orgs[:5]\<close>\<close>

definition worked_at :: "pyval \<Rightarrow> string" where
  "worked_at org = ''Worked at '' @ (case org of PStr s \<Rightarrow> s | _ \<Rightarrow> ''None'')"

fun cert_proj_loop :: "string list \<Rightarrow> string list \<times> string list \<Rightarrow> string list \<times> string list"
  where
  "cert_proj_loop [] (certs, projects) = (certs, projects)"
| "cert_proj_loop (line # rest) (certs, projects) =
     (let low = lower line;
          certs' = (if str_in ''certif'' low \<or> str_in ''course'' low \<or> str_in ''certificate'' low
                    then certs @ [strip line] else certs);
          projects' = (if str_in ''project'' low \<or> str_in ''github.com'' low
                       then projects @ [strip line] else projects)
      in cert_proj_loop rest (certs', projects'))"

fun hobbies_loop :: "string list \<Rightarrow> string \<Rightarrow> string list \<Rightarrow> string list" where
  "hobbies_loop [] lower_text hobbies = hobbies"
| "hobbies_loop (h # rest) lower_text hobbies =
     hobbies_loop rest lower_text
       (if re_search (word_pattern h) lower_text then hobbies @ [h] else hobbies)"

fun intro_loop :: "string list \<Rightarrow> string" where
  "intro_loop [] = []"
| "intro_loop (line # rest) =
     (if length (strip line) > 30 then strip line else intro_loop rest)"

text \<open>
  The education dict: the subscript \<open>e["word"]\<close> of the fallback is evaluated only when
  no line was collected.
\<close>

definition education_of :: "string list \<Rightarrow> entity list \<Rightarrow> error + (string \<times> pyval) list" where
  "education_of edu_lines ner_entities =
     (if edu_lines \<noteq> [] then Inr [(''entries'', PList (map PStr edu_lines))]
      else (case org_words ner_entities of
              Inl x \<Rightarrow> Inl x
            | Inr orgs \<Rightarrow> Inr (if orgs \<noteq> [] then [(''entries'', PList (take 3 orgs))] else [])))"

definition build_structured_fields :: "string \<Rightarrow> entity list \<Rightarrow> error + (string \<times> pyval) list"
  where
  "build_structured_fields text ner_entities =
     (let lower_text = lower text;
          name = find_name ner_entities;
          found_skills = skills_loop COMMON_SKILLS lower_text []
      in case education_of (edu_loop (splitlines text) []) ner_entities of
           Inl x \<Rightarrow> Inl x
         | Inr education \<Rightarrow>
             (case org_words ner_entities of
                Inl x \<Rightarrow> Inl x
              | Inr orgs \<Rightarrow>
                  (let experiences = exp_loop (splitlines text) [] @ map worked_at (take 5 orgs);
                       (certs, projects) = cert_proj_loop (splitlines text) ([], []);
                       hobbies = hobbies_loop hobby_keywords lower_text [];
                       intro = intro_loop (splitlines text)
                   in Inr [(''name'', PStr (name_or_empty name)),
                           (''education'', PDict education),
                           (''experience'',
                              PDict (if experiences \<noteq> []
                                     then [(''summary_lines'', PList (map PStr experiences))]
                                     else [])),
                           (''skills'', PList (map PStr (sort found_skills))),
                           (''hobbies'', PList (map PStr hobbies)),
                           (''certifications'', PList (map PStr certs)),
                           (''projects'', PList (map PStr projects)),
                           (''introduction'', PStr intro)])))"

section \<open>The entity normaliser of \<open>call_local_ner\<close>\<close>

text \<open>
  \<open>call_local_ner\<close> rebuilds every dict \<open>e\<close> of the NER pipeline as
  \<open>{"word": e.get("word") if "word" in e else e.get("entity"),
     "entity_group": e.get("entity_group") or e.get("entity")}\<close>,
  and \<open>upload_resume\<close> passes the list of these dicts, or the empty list, to
  \<open>build_structured_fields\<close>. \<open>get_field\<close> is \<open>e.get(k)\<close>: \<open>None\<close> for a key that is
  not there.
\<close>

record raw_entity =
  raw_word :: field
  raw_entity :: field
  raw_entity_group :: field

definition get_field :: "field \<Rightarrow> field" where
  "get_field v = (case v of Absent \<Rightarrow> Null | _ \<Rightarrow> v)"

definition normalize_entity :: "raw_entity \<Rightarrow> entity" where
  "normalize_entity e =
     \<lparr>word = (if raw_word e \<noteq> Absent then get_field (raw_word e) else get_field (raw_entity e)),
      entity_group = (case raw_entity_group e of
                        Str g \<Rightarrow> if g \<noteq> [] then Str g else get_field (raw_entity e)
                      | _ \<Rightarrow> get_field (raw_entity e))\<rparr>"

section \<open>Notions of the specification\<close>

text \<open>
  The words of the specification, stated on their own and not through the loops and
  patterns of the code: a substring, an occurrence between two word boundaries, a year,
  the lines that qualify for each field, an ORG entity and its text, and the schema of
  the record. The sections after this one prove that the code computes them.
\<close>

definition is_substring :: "string \<Rightarrow> string \<Rightarrow> bool" where
  "is_substring k s = (\<exists>pre post. s = pre @ k @ post)"

definition qa_line_matches :: "string list \<Rightarrow> string \<Rightarrow> bool" where
  "qa_line_matches keywords line =
     (3 \<le> length (strip line) \<and> (\<exists>w \<in> set keywords. is_substring w (lower line)))"

definition whole_word_in :: "string \<Rightarrow> string \<Rightarrow> bool" where
  "whole_word_in w s =
     (\<exists>i. i + length w \<le> length s \<and> take (length w) (drop i s) = w \<and>
          at_boundary s i \<and> at_boundary s (i + length w))"

text \<open>
  The ordinary notion of a whole word: an occurrence of the token with no word character
  right before it and none right after it.
\<close>

definition occurs_as_word :: "string \<Rightarrow> string \<Rightarrow> bool" where
  "occurs_as_word w s =
     (\<exists>pre post. s = pre @ w @ post \<and>
        \<not> list_ex isword (take 1 (rev pre)) \<and> \<not> list_ex isword (take 1 post))"

definition has_year :: "string \<Rightarrow> bool" where
  "has_year s =
     (\<exists>i. i + 4 \<le> length s \<and> (take 2 (drop i s) = ''19'' \<or> take 2 (drop i s) = ''20'') \<and>
          isdigit (s ! (i + 2)) \<and> isdigit (s ! (i + 3)))"

definition edu_qualifies :: "string \<Rightarrow> bool" where
  "edu_qualifies line =
     (5 < length (strip line) \<and>
      ((\<exists>k \<in> set DEGREE_KEYWORDS. is_substring k (lower line)) \<or>
       (\<exists>w \<in> set [''university'', ''college'', ''institute'', ''school''].
          whole_word_in w (lower line))))"

definition exp_qualifies :: "string \<Rightarrow> bool" where
  "exp_qualifies line =
     (has_year (strip line) \<and>
      (\<exists>k \<in> set [''intern'', ''engineer'', ''manager'', ''associate'', ''analyst'', ''developer''].
         is_substring k (lower (strip line))))"

definition cert_line :: "string \<Rightarrow> bool" where
  "cert_line line =
     (is_substring ''certif'' (lower line) \<or> is_substring ''course'' (lower line) \<or>
      is_substring ''certificate'' (lower line))"

definition project_line :: "string \<Rightarrow> bool" where
  "project_line line =
     (is_substring ''project'' (lower line) \<or> is_substring ''github.com'' (lower line))"

definition is_organization :: "entity \<Rightarrow> bool" where
  "is_organization e = (\<exists>g. entity_group e = Str g \<and> startswith (upper g) ''ORG'')"

definition span_text :: "entity \<Rightarrow> pyval" where
  "span_text e = (case word e of Str s \<Rightarrow> PStr s | _ \<Rightarrow> PNone)"

definition span_str :: "entity \<Rightarrow> string" where
  "span_str e = (case word e of Str s \<Rightarrow> s | _ \<Rightarrow> ''None'')"

fun is_str :: "pyval \<Rightarrow> bool" where
  "is_str (PStr s) = True"
| "is_str v = False"

fun is_str_list :: "pyval \<Rightarrow> bool" where
  "is_str_list (PList xs) = list_all is_str xs"
| "is_str_list v = False"

fun is_dict :: "pyval \<Rightarrow> bool" where
  "is_dict (PDict kvs) = True"
| "is_dict v = False"

definition has_type :: "(pyval \<Rightarrow> bool) \<Rightarrow> (string \<times> pyval) list \<Rightarrow> string \<Rightarrow> bool" where
  "has_type p d k = (case map_of d k of Some v \<Rightarrow> p v | None \<Rightarrow> False)"

definition schema_ok :: "(string \<times> pyval) list \<Rightarrow> bool" where
  "schema_ok d =
     (map fst d = [''name'', ''education'', ''experience'', ''skills'', ''hobbies'',
                   ''certifications'', ''projects'', ''introduction''] \<and>
      has_type is_str d ''name'' \<and> has_type is_dict d ''education'' \<and>
      has_type is_dict d ''experience'' \<and> has_type is_str_list d ''skills'' \<and>
      has_type is_str_list d ''hobbies'' \<and> has_type is_str_list d ''certifications'' \<and>
      has_type is_str_list d ''projects'' \<and> has_type is_str d ''introduction'')"

section \<open>Inputs of the examples\<close>

definition no_models :: models where
  "no_models = \<lparr>models_loaded = False, qa_pipeline = None\<rparr>"

definition loaded_with :: "pipeline \<Rightarrow> models" where
  "loaded_with qa = \<lparr>models_loaded = True, qa_pipeline = Some qa\<rparr>"

definition failing_qa :: pipeline where
  "failing_qa question ctx top_k = Inl ''boom''"

definition echo_qa :: pipeline where
  "echo_qa question ctx top_k = Inr (PDict [(''answer'', PStr ctx)])"

definition no_repr :: "pyval \<Rightarrow> string" where
  "no_repr v = ''<repr>''"



definition org_span :: "string \<Rightarrow> entity" where
  "org_span w = \<lparr>word = Str w, entity_group = Str ''ORG''\<rparr>"



section \<open>Facts about strings\<close>

lemma startswith_iff: "startswith s p \<longleftrightarrow> (\<exists>post. s = p @ post)"
proof
  assume "startswith s p"
  then have "s = p @ drop (length p) s"
    by (metis append_take_drop_id startswith_def)
  then show "\<exists>post. s = p @ post" ..
next
  assume "\<exists>post. s = p @ post"
  then show "startswith s p" by (auto simp: startswith_def)
qed

lemma str_in_iff [code]: "is_substring k s = str_in k s"
proof (induction s)
  case Nil
  show ?case by (auto simp: is_substring_def)
next
  case (Cons c cs)
  have "is_substring k (c # cs) \<longleftrightarrow> startswith (c # cs) k \<or> is_substring k cs"
  proof
    assume "is_substring k (c # cs)"
    then obtain pre post where e: "c # cs = pre @ k @ post"
      by (auto simp: is_substring_def)
    show "startswith (c # cs) k \<or> is_substring k cs"
    proof (cases pre)
      case Nil
      with e show ?thesis by (auto simp: startswith_iff)
    next
      case (Cons p ps)
      with e have "cs = ps @ k @ post" by simp
      then show ?thesis by (auto simp: is_substring_def)
    qed
  next
    assume "startswith (c # cs) k \<or> is_substring k cs"
    then show "is_substring k (c # cs)"
    proof
      assume "startswith (c # cs) k"
      then obtain post where "c # cs = [] @ k @ post" by (auto simp: startswith_iff)
      then show ?thesis unfolding is_substring_def by blast
    next
      assume "is_substring k cs"
      then obtain pre post where "cs = pre @ k @ post" by (auto simp: is_substring_def)
      then have "c # cs = (c # pre) @ k @ post" by simp
      then show ?thesis unfolding is_substring_def by blast
    qed
  qed
  with Cons show ?case by simp
qed

section \<open>The heuristic answer\<close>

lemma qa_scan_filter:
  "qa_scan kws lines acc = acc @ map strip (filter (qa_line_matches kws) lines)"
  by (induction lines arbitrary: acc)
     (auto simp: qa_line_matches_def list_ex_iff str_in_iff not_less)

lemma hd_map_filter_find:
  "(case find P xs of Some x \<Rightarrow> f x | None \<Rightarrow> d) =
     (if map f (filter P xs) \<noteq> [] then hd (map f (filter P xs)) else d)"
  by (induction xs) auto

lemma heuristic_qa_find:
  "heuristic_qa question context =
     PDict [(''answer'', PStr (case find (qa_line_matches (take 3 (split (lower question))))
                                     (splitlines context) of
                                 Some line \<Rightarrow> strip line
                               | None \<Rightarrow> ''No clear answer found in stored data.''))]"
  by (simp add: heuristic_qa_def qa_scan_filter hd_map_filter_find no_answer_def Let_def)

text \<open>
  C8. Without a QA model the answer is the first line of the context, in order, whose
  trimmed length is at least 3 and whose lower-cased text has one of the first three
  whitespace-separated tokens of the lower-cased question as a substring; the line is
  returned trimmed. When no line matches, the answer is the fixed literal.
\<close>

theorem heuristic_answer_is_first_matching_line:
  assumes "\<not> (models_loaded st \<and> qa_pipeline st \<noteq> None)"
  shows "call_local_qa st question context top_k =
     PDict [(''answer'', PStr (case find (qa_line_matches (take 3 (split (lower question))))
                                     (splitlines context) of
                                 Some line \<Rightarrow> strip line
                               | None \<Rightarrow> ''No clear answer found in stored data.''))]"
proof -
  from assms have "call_local_qa st question context top_k = heuristic_qa question context"
    by (auto simp: call_local_qa_def split: bool.splits option.splits)
  then show ?thesis by (simp only: heuristic_qa_find)
qed

theorem heuristic_answer_is_first_matching_line_witness:
  "\<not> (models_loaded no_models \<and> qa_pipeline no_models \<noteq> None) \<and>
   call_local_qa no_models ''What university did she attend''
     ''EDUCATION:\<newline>  Graduated from State University in 2015\<newline>She did well\<newline>'' 1 =
     PDict [(''answer'', PStr ''Graduated from State University in 2015'')] \<and>
   call_local_qa no_models ''When did she graduate?''
     ''EDUCATION:\<newline>B.Sc. in Physics, 2015\<newline>'' 1 =
     PDict [(''answer'', PStr ''No clear answer found in stored data.'')]"
proof -
  have h: "\<not> (models_loaded no_models \<and> qa_pipeline no_models \<noteq> None)"
    by (simp add: no_models_def)
  have a: "(case find (qa_line_matches (take 3 (split (lower ''What university did she attend''))))
              (splitlines ''EDUCATION:\<newline>  Graduated from State University in 2015\<newline>She did well\<newline>'') of
              Some line \<Rightarrow> strip line
            | None \<Rightarrow> ''No clear answer found in stored data.'') =
           ''Graduated from State University in 2015''"
    by code_simp
  have b: "(case find (qa_line_matches (take 3 (split (lower ''When did she graduate?''))))
              (splitlines ''EDUCATION:\<newline>B.Sc. in Physics, 2015\<newline>'') of
              Some line \<Rightarrow> strip line
            | None \<Rightarrow> ''No clear answer found in stored data.'') =
           ''No clear answer found in stored data.''"
    by code_simp
  show ?thesis
    using h heuristic_answer_is_first_matching_line [OF h] by (simp only: a b simp_thms)
qed

lemma lower_chr_space: "isspace c \<Longrightarrow> lower_chr c = c"
  by (auto simp: isspace_def lower_chr_def Let_def)

lemma split_from_spaces: "\<forall>c \<in> set s. isspace c \<Longrightarrow> split_from [] s = []"
  by (induction s) auto

lemma split_lower_blank: "\<forall>c \<in> set q. isspace c \<Longrightarrow> split (lower q) = []"
  unfolding split_def lower_def
  by (rule split_from_spaces) (auto simp: lower_chr_space)

text \<open>
  C10. In the heuristic fallback a question that is empty or all whitespace has no
  keywords, so no line matches and the answer is the fixed literal, whatever the context.
\<close>

theorem blank_question_has_no_answer:
  assumes "\<not> (models_loaded st \<and> qa_pipeline st \<noteq> None)"
    and "\<forall>c \<in> set question. isspace c"
  shows "call_local_qa st question context top_k =
           PDict [(''answer'', PStr ''No clear answer found in stored data.'')]"
proof -
  have "call_local_qa st question context top_k = heuristic_qa question context"
    using assms(1) by (auto simp: call_local_qa_def split: bool.splits option.splits)
  moreover have "qa_scan [] ls acc = acc" for ls acc
    by (induction ls arbitrary: acc) auto
  ultimately show ?thesis
    using split_lower_blank [OF assms(2)]
    by (simp add: heuristic_qa_def no_answer_def)
qed

theorem blank_question_has_no_answer_witness:
  "\<not> (models_loaded no_models \<and> qa_pipeline no_models \<noteq> None) \<and>
   isspace CHR '' '' \<and>
   call_local_qa no_models ''  '' ''EDUCATION:\<newline>B.Sc. in Physics, 2015\<newline>'' 1 =
     PDict [(''answer'', PStr ''No clear answer found in stored data.'')] \<and>
   call_local_qa no_models '''' ''EDUCATION:\<newline>B.Sc. in Physics, 2015\<newline>'' 1 =
     PDict [(''answer'', PStr ''No clear answer found in stored data.'')]"
proof -
  have h: "\<not> (models_loaded no_models \<and> qa_pipeline no_models \<noteq> None)"
    by (simp add: no_models_def)
  have b: "\<forall>c \<in> set ''  ''. isspace c"
    by code_simp
  have e: "\<forall>c \<in> set ''''. isspace c"
    by simp
  have s: "isspace CHR '' ''"
    by code_simp
  show ?thesis
    using h s blank_question_has_no_answer [OF h b] blank_question_has_no_answer [OF h e]
    by blast
qed

section \<open>The model-backed answer\<close>

text \<open>
  C9. With a loaded QA model, the context handed to the model is the context itself when
  it has at most 20000 characters, and otherwise its last 20000 characters: the
  characters before them are dropped.
\<close>

theorem model_context_is_trailing_slice:
  assumes "models_loaded st" and "qa_pipeline st = Some qa"
  shows "call_local_qa st question context top_k =
           (case qa question (if 20000 < length context
                              then drop (length context - 20000) context
                              else context) top_k of
              Inr res \<Rightarrow> res
            | Inl e \<Rightarrow> PDict [(''error'', PStr e)])
         \<and> (20000 < length context \<longrightarrow>
              length (drop (length context - 20000) context) = 20000 \<and>
              take (length context - 20000) context @ drop (length context - 20000) context
                = context)"
  using assms by (auto simp: call_local_qa_def max_context_def slice_last_def Let_def)

theorem model_context_is_trailing_slice_witness:
  "models_loaded (loaded_with echo_qa) \<and> qa_pipeline (loaded_with echo_qa) = Some echo_qa \<and>
   call_local_qa (loaded_with echo_qa) ''who'' (replicate 5000 CHR ''a'' @ replicate 20000 CHR ''b'') 1
     = PDict [(''answer'', PStr (replicate 20000 CHR ''b''))] \<and>
   call_local_qa (loaded_with echo_qa) ''who'' ''short'' 1 = PDict [(''answer'', PStr ''short'')]"
proof -
  have l: "models_loaded (loaded_with echo_qa)"
    and p: "qa_pipeline (loaded_with echo_qa) = Some echo_qa"
    by (simp_all add: loaded_with_def)
  show ?thesis
    using model_context_is_trailing_slice [OF l p, of "''who''" "replicate 5000 CHR ''a'' @ replicate 20000 CHR ''b''" 1]
      model_context_is_trailing_slice [OF l p, of "''who''" "''short''" 1] l p
    by (simp add: echo_qa_def)
qed

lemma heuristic_qa_is_answer: "\<exists>a. heuristic_qa question context = PDict [(''answer'', PStr a)]"
  by (simp add: heuristic_qa_def Let_def)

text \<open>
  C1, as stated, fails: with a loaded model whose call raises \<open>boom\<close>, \<open>call_local_qa\<close>
  returns the payload \<open>{error: boom}\<close>, not \<open>{answer: boom}\<close>, and \<open>ask_candidate\<close> raises
  an HTTP 500.
\<close>

theorem model_failure_counterexample:
  "call_local_qa (loaded_with failing_qa) ''who'' ''ctx'' 1 = PDict [(''error'', PStr ''boom'')] \<and>
   call_local_qa (loaded_with failing_qa) ''who'' ''ctx'' 1 \<noteq> PDict [(''answer'', PStr ''boom'')] \<and>
   ask_candidate no_repr (loaded_with failing_qa) (Some ''ctx'') ''id1'' (Some ''who'')
     = Inl (HTTPException 500 ''QA failed: boom'')"
  by (simp add: call_local_qa_def loaded_with_def failing_qa_def max_context_def
      ask_candidate_def normalize_response_def dict_get_def py_str_def)

text \<open>
  C1, amended. When the QA model is loaded and its call raises with message \<open>m\<close>,
  \<open>call_local_qa\<close> returns the error payload \<open>{error: m}\<close> and does not fall through
  to the heuristic path; \<open>ask_candidate\<close> then raises the hard failure HTTP 500 with
  detail \<open>QA failed: m\<close> when \<open>m\<close> is not empty, and for an empty \<open>m\<close> answers with
  the text of the error payload.
\<close>

theorem model_failure_is_error_payload:
  assumes "models_loaded st" and "qa_pipeline st = Some qa"
    and "qa question (if 20000 < length context
                      then drop (length context - 20000) context else context) top_k = Inl m"
  shows "call_local_qa st question context top_k = PDict [(''error'', PStr m)] \<and>
         call_local_qa st question context top_k \<noteq> heuristic_qa question context \<and>
         (top_k = 1 \<and> question \<noteq> [] \<and> m \<noteq> [] \<longrightarrow>
            ask_candidate repr st (Some context) candidate_id (Some question)
              = Inl (HTTPException 500 (''QA failed: '' @ m))) \<and>
         (top_k = 1 \<and> question \<noteq> [] \<and> m = [] \<longrightarrow>
            ask_candidate repr st (Some context) candidate_id (Some question)
              = Inr [(''candidate_id'', PStr candidate_id), (''question'', PStr question),
                     (''answer'', PStr (repr (PDict [(''error'', PStr [])])))])"
proof -
  have c: "call_local_qa st question context top_k = PDict [(''error'', PStr m)]"
    using assms
    by (auto simp: call_local_qa_def max_context_def slice_last_def Let_def)
  obtain a where "heuristic_qa question context = PDict [(''answer'', PStr a)]"
    using heuristic_qa_is_answer by blast
  with c have "call_local_qa st question context top_k \<noteq> heuristic_qa question context"
    by simp
  moreover have "normalize_response repr (PDict [(''error'', PStr m)]) =
      (if m \<noteq> [] then Inl m else Inr (PStr (repr (PDict [(''error'', PStr [])]))))"
    by (simp add: normalize_response_def dict_get_def py_str_def)
  ultimately show ?thesis
    using c by (auto simp: ask_candidate_def)
qed

theorem model_failure_is_error_payload_witness:
  "models_loaded (loaded_with failing_qa) \<and>
   qa_pipeline (loaded_with failing_qa) = Some failing_qa \<and>
   failing_qa ''who'' ''ctx'' 1 = Inl ''boom'' \<and>
   call_local_qa (loaded_with failing_qa) ''who'' ''ctx'' 1 = PDict [(''error'', PStr ''boom'')] \<and>
   call_local_qa (loaded_with failing_qa) ''who'' ''ctx'' 1 \<noteq> heuristic_qa ''who'' ''ctx'' \<and>
   ask_candidate no_repr (loaded_with failing_qa) (Some ''ctx'') ''id1'' (Some ''who'')
     = Inl (HTTPException 500 ''QA failed: boom'')"
proof -
  have l: "models_loaded (loaded_with failing_qa)"
    and p: "qa_pipeline (loaded_with failing_qa) = Some failing_qa"
    by (simp_all add: loaded_with_def)
  have f: "failing_qa ''who'' (if 20000 < length ''ctx''
             then drop (length ''ctx'' - 20000) ''ctx'' else ''ctx'') 1 = Inl ''boom''"
    by (simp add: failing_qa_def)
  have g: "failing_qa ''who'' ''ctx'' 1 = Inl ''boom''"
    by (simp add: failing_qa_def)
  note t = model_failure_is_error_payload [OF l p f, of no_repr "''id1''"]
  have a: "call_local_qa (loaded_with failing_qa) ''who'' ''ctx'' 1 = PDict [(''error'', PStr ''boom'')]"
    using t by blast
  have b: "call_local_qa (loaded_with failing_qa) ''who'' ''ctx'' 1 \<noteq> heuristic_qa ''who'' ''ctx''"
    using t by blast
  have c: "ask_candidate no_repr (loaded_with failing_qa) (Some ''ctx'') ''id1'' (Some ''who'')
     = Inl (HTTPException 500 ''QA failed: boom'')"
    using t by simp
  show ?thesis
    using l p g a b c by blast
qed

section \<open>Facts about the patterns\<close>

lemma re_search_iff: "re_search r s \<longleftrightarrow> (\<exists>i\<le>length s. rmatch r s i \<noteq> [])"
  by (auto simp del: upt_Suc simp: re_search_def list_ex_iff less_Suc_eq_le)

lemma take_drop_Cons:
  "take (Suc n) (drop i s) = c # w \<longleftrightarrow> i < length s \<and> s ! i = c \<and> take n (drop (Suc i) s) = w"
proof (cases "i < length s")
  case True
  then have "drop i s = s ! i # drop (Suc i) s"
    by (simp add: Cons_nth_drop_Suc)
  with True show ?thesis by auto
next
  case False
  then have "take (Suc n) (drop i s) = []" by simp
  then have "take (Suc n) (drop i s) \<noteq> c # w" by simp
  with False show ?thesis by blast
qed

lemma rmatch_escape:
  "w \<noteq> [] \<or> i \<le> length s \<Longrightarrow>
   rmatch (re_escape w) s i =
     (if i + length w \<le> length s \<and> take (length w) (drop i s) = w then [i + length w] else [])"
proof (induction w arbitrary: i)
  case Nil
  then show ?case by (simp add: re_escape_def)
next
  case (Cons c w)
  have e: "re_escape (c # w) = Cat (Lit c) (re_escape w)"
    by (simp add: re_escape_def)
  show ?case
  proof (cases "i < length s \<and> s ! i = c")
    case True
    then have "rmatch (re_escape (c # w)) s i = rmatch (re_escape w) s (Suc i)"
      by (simp add: e)
    moreover from True have "w \<noteq> [] \<or> Suc i \<le> length s"
      by simp
    ultimately show ?thesis
      using True by (simp add: Cons.IH take_drop_Cons)
  next
    case False
    then have "rmatch (re_escape (c # w)) s i = []"
      by (auto simp: e)
    with False show ?thesis
      by (auto simp: take_drop_Cons)
  qed
qed

lemma rmatch_Cat_nonempty:
  "rmatch (Cat r1 r2) s i \<noteq> [] \<longleftrightarrow> (\<exists>j \<in> set (rmatch r1 s i). rmatch r2 s j \<noteq> [])"
  by auto

lemma set_rmatch_escape:
  "w \<noteq> [] \<or> i \<le> length s \<Longrightarrow>
   j \<in> set (rmatch (re_escape w) s i) \<longleftrightarrow>
     j = i + length w \<and> i + length w \<le> length s \<and> take (length w) (drop i s) = w"
  by (simp add: rmatch_escape)

lemma set_rmatch_WordB: "j \<in> set (rmatch WordB s i) \<longleftrightarrow> j = i \<and> at_boundary s i"
  by simp

lemma rmatch_WordB_nonempty: "rmatch WordB s i \<noteq> [] \<longleftrightarrow> at_boundary s i"
  by simp

lemma at_boundary_le: "at_boundary s i \<Longrightarrow> i \<le> length s"
  by (auto simp: at_boundary_def)

lemma rmatch_word_pattern:
  "rmatch (word_pattern w) s i \<noteq> [] \<longleftrightarrow>
     i + length w \<le> length s \<and> take (length w) (drop i s) = w \<and>
     at_boundary s i \<and> at_boundary s (i + length w)"
proof (cases "at_boundary s i")
  case False
  then show ?thesis
    unfolding word_pattern_def rmatch_Cat_nonempty Bex_def set_rmatch_WordB by blast
next
  case True
  then have le: "w \<noteq> [] \<or> i \<le> length s"
    by (simp add: at_boundary_le)
  have 1: "rmatch (word_pattern w) s i = rmatch (Cat (re_escape w) WordB) s i"
    using True by (simp add: word_pattern_def)
  have 2: "rmatch (Cat (re_escape w) WordB) s i \<noteq> [] \<longleftrightarrow>
      (\<exists>k. k \<in> set (rmatch (re_escape w) s i) \<and> at_boundary s k)"
    unfolding rmatch_Cat_nonempty rmatch_WordB_nonempty Bex_def by (rule refl)
  show ?thesis
    unfolding 1 2 set_rmatch_escape [OF le] using True by blast
qed

lemma whole_word_in_code [code]: "whole_word_in w s = re_search (word_pattern w) s"
proof -
  have "i + length w \<le> length s \<Longrightarrow> i \<le> length s" for i
    by simp
  then show ?thesis
    unfolding whole_word_in_def re_search_iff rmatch_word_pattern by blast
qed

lemma rmatch_institution:
  "rmatch institution_pattern s i \<noteq> [] \<longleftrightarrow>
     (\<exists>w \<in> set [''university'', ''college'', ''institute'', ''school''].
        i + length w \<le> length s \<and> take (length w) (drop i s) = w \<and>
        at_boundary s i \<and> at_boundary s (i + length w))"
proof -
  let ?alts = "Or (re_escape ''university'') (Or (re_escape ''college'')
       (Or (re_escape ''institute'') (re_escape ''school'')))"
  have a: "j \<in> set (rmatch ?alts s i) \<longleftrightarrow>
      (\<exists>w \<in> set [''university'', ''college'', ''institute'', ''school''].
         j = i + length w \<and> i + length w \<le> length s \<and> take (length w) (drop i s) = w)" for j
    unfolding rmatch.simps(6) set_append Un_iff by (simp add: set_rmatch_escape)
  have "rmatch institution_pattern s i \<noteq> [] \<longleftrightarrow>
      at_boundary s i \<and> (\<exists>j \<in> set (rmatch ?alts s i). at_boundary s j)"
    unfolding institution_pattern_def rmatch_Cat_nonempty Bex_def set_rmatch_WordB
      rmatch_WordB_nonempty
    by blast
  also have "\<dots> \<longleftrightarrow> (\<exists>w \<in> set [''university'', ''college'', ''institute'', ''school''].
        i + length w \<le> length s \<and> take (length w) (drop i s) = w \<and>
        at_boundary s i \<and> at_boundary s (i + length w))"
    unfolding Bex_def a by blast
  finally show ?thesis .
qed

lemma institution_search:
  "re_search institution_pattern s \<longleftrightarrow>
     (\<exists>w \<in> set [''university'', ''college'', ''institute'', ''school'']. whole_word_in w s)"
proof -
  have "i + length w \<le> length s \<Longrightarrow> i \<le> length s" for i and w :: string
    by simp
  then show ?thesis
    unfolding whole_word_in_def re_search_iff rmatch_institution by blast
qed

lemma rmatch_two_digits:
  "rmatch (Cat Digit Digit) s j \<noteq> [] \<longleftrightarrow>
     j + 2 \<le> length s \<and> isdigit (s ! j) \<and> isdigit (s ! (j + 1))"
  by auto

lemma rmatch_year:
  "rmatch year_pattern s i \<noteq> [] \<longleftrightarrow>
     i + 4 \<le> length s \<and> (take 2 (drop i s) = ''19'' \<or> take 2 (drop i s) = ''20'') \<and>
     isdigit (s ! (i + 2)) \<and> isdigit (s ! (i + 3))"
proof -
  have a: "j \<in> set (rmatch (Or (re_escape ''19'') (re_escape ''20'')) s i) \<longleftrightarrow>
      j = i + 2 \<and> i + 2 \<le> length s \<and>
      (take 2 (drop i s) = ''19'' \<or> take 2 (drop i s) = ''20'')" for j
  proof -
    have l: "length ''19'' = 2" "length ''20'' = 2"
      by simp_all
    have n: "''19'' \<noteq> [] \<or> i \<le> length s" "''20'' \<noteq> [] \<or> i \<le> length s"
      by simp_all
    show ?thesis
      unfolding rmatch.simps(6) set_append Un_iff set_rmatch_escape [OF n(1)]
        set_rmatch_escape [OF n(2)] l
      by blast
  qed
  have "rmatch year_pattern s i \<noteq> [] \<longleftrightarrow>
      (\<exists>j \<in> set (rmatch (Or (re_escape ''19'') (re_escape ''20'')) s i).
         j + 2 \<le> length s \<and> isdigit (s ! j) \<and> isdigit (s ! (j + 1)))"
    unfolding year_pattern_def rmatch_two_digits [symmetric] by (rule rmatch_Cat_nonempty)
  also have "\<dots> \<longleftrightarrow> i + 2 \<le> length s \<and>
      (take 2 (drop i s) = ''19'' \<or> take 2 (drop i s) = ''20'') \<and>
      i + 2 + 2 \<le> length s \<and> isdigit (s ! (i + 2)) \<and> isdigit (s ! (i + 2 + 1))"
    unfolding Bex_def a by blast
  also have "\<dots> \<longleftrightarrow> i + 4 \<le> length s \<and>
      (take 2 (drop i s) = ''19'' \<or> take 2 (drop i s) = ''20'') \<and>
      isdigit (s ! (i + 2)) \<and> isdigit (s ! (i + 3))"
  proof -
    have e: "i + 2 + 2 = i + 4" "i + 2 + 1 = i + 3"
      by simp_all
    have "i + 4 \<le> length s \<Longrightarrow> i + 2 \<le> length s"
      by simp
    then show ?thesis
      unfolding e by blast
  qed
  finally show ?thesis .
qed

lemma has_year_code [code]: "has_year s = re_search year_pattern s"
proof -
  have "i + 4 \<le> length s \<Longrightarrow> i \<le> length s" for i
    by simp
  then show ?thesis
    unfolding has_year_def re_search_iff rmatch_year by blast
qed

section \<open>Word boundaries and whole words\<close>

text \<open>
  For a token that starts and ends with a word character, an occurrence between two
  word boundaries is an occurrence as a whole word. Every token of the skill list but
  \<open>c++\<close> is such a token.
\<close>

lemma list_ex_take1: "list_ex P (take 1 xs) \<longleftrightarrow> xs \<noteq> [] \<and> P (hd xs)"
  by (cases xs) auto

lemma whole_word_in_decomp:
  "whole_word_in w s \<longleftrightarrow>
     (\<exists>pre post. s = pre @ w @ post \<and> at_boundary s (length pre) \<and>
        at_boundary s (length pre + length w))"
proof
  assume "whole_word_in w s"
  then obtain i where i: "i + length w \<le> length s" "take (length w) (drop i s) = w"
    "at_boundary s i" "at_boundary s (i + length w)"
    by (auto simp: whole_word_in_def)
  have "drop (length w) (drop i s) = drop (i + length w) s"
    by (simp add: add.commute)
  moreover have "take (length w) (drop i s) @ drop (length w) (drop i s) = drop i s"
    by (rule append_take_drop_id)
  ultimately have "drop i s = w @ drop (i + length w) s"
    using i(2) by simp
  then have "s = take i s @ w @ drop (i + length w) s"
    by (metis append_take_drop_id)
  moreover have "length (take i s) = i"
    using i(1) by simp
  ultimately show "\<exists>pre post. s = pre @ w @ post \<and> at_boundary s (length pre) \<and>
        at_boundary s (length pre + length w)"
    using i(3,4) by metis
next
  assume "\<exists>pre post. s = pre @ w @ post \<and> at_boundary s (length pre) \<and>
        at_boundary s (length pre + length w)"
  then obtain pre post where p: "s = pre @ w @ post" "at_boundary s (length pre)"
    "at_boundary s (length pre + length w)"
    by blast
  have "length pre + length w \<le> length s" "take (length w) (drop (length pre) s) = w"
    using p(1) by simp_all
  with p(2,3) show "whole_word_in w s"
    unfolding whole_word_in_def by blast
qed

lemma boundary_before_word:
  assumes "w \<noteq> []" and "isword (hd w)"
  shows "at_boundary (pre @ w @ post) (length pre) \<longleftrightarrow> \<not> list_ex isword (take 1 (rev pre))"
proof -
  have a: "(pre @ w @ post) ! length pre = hd w"
    using assms(1) by (simp add: nth_append hd_conv_nth)
  have b: "length pre < length (pre @ w @ post)"
    using assms(1) by simp
  show ?thesis
  proof (cases pre rule: rev_cases)
    case Nil
    with a b assms(2) show ?thesis
      by (simp add: at_boundary_def)
  next
    case (snoc ys y)
    then have "(pre @ w @ post) ! (length pre - 1) = y"
      by (simp add: nth_append)
    with a b assms(2) snoc show ?thesis
      by (simp add: at_boundary_def)
  qed
qed

lemma boundary_after_word:
  assumes "w \<noteq> []" and "isword (last w)"
  shows "at_boundary (pre @ w @ post) (length pre + length w) \<longleftrightarrow>
           \<not> list_ex isword (take 1 post)"
proof -
  have "length pre + length w - 1 = length pre + (length w - 1)"
    using assms(1) by (cases w) simp_all
  moreover have "(pre @ w @ post) ! (length pre + (length w - 1)) = (w @ post) ! (length w - 1)"
    by (rule nth_append_length_plus)
  moreover have "(w @ post) ! (length w - 1) = last w"
    using assms(1) by (simp add: nth_append last_conv_nth)
  ultimately have a: "(pre @ w @ post) ! (length pre + length w - 1) = last w"
    by simp
  have p: "0 < length pre + length w"
    using assms(1) by simp
  show ?thesis
  proof (cases post)
    case Nil
    with a p assms(2) show ?thesis
      by (simp add: at_boundary_def)
  next
    case (Cons c cs)
    then have "(pre @ w @ post) ! (length pre + length w) = c"
      by (simp add: nth_append)
    with a p assms(2) Cons show ?thesis
      by (simp add: at_boundary_def)
  qed
qed

lemma whole_word_in_ordinary:
  assumes "w \<noteq> []" and "isword (hd w)" and "isword (last w)"
  shows "whole_word_in w s \<longleftrightarrow> occurs_as_word w s"
proof -
  have "s = pre @ w @ post \<Longrightarrow>
      at_boundary s (length pre) \<and> at_boundary s (length pre + length w) \<longleftrightarrow>
      \<not> list_ex isword (take 1 (rev pre)) \<and> \<not> list_ex isword (take 1 post)" for pre post
    using boundary_before_word [OF assms(1,2)] boundary_after_word [OF assms(1,3)] by simp
  then show ?thesis
    unfolding whole_word_in_decomp occurs_as_word_def by blast
qed

lemma skill_tokens_edges:
  "t \<in> set COMMON_SKILLS \<Longrightarrow> t \<noteq> ''c++'' \<Longrightarrow> t \<noteq> [] \<and> isword (hd t) \<and> isword (last t)"
proof -
  have "list_all (\<lambda>t. t \<noteq> [] \<and> isword (hd t) \<and> isword (last t))
      (filter (\<lambda>t. t \<noteq> ''c++'') COMMON_SKILLS)"
    by code_simp
  then show "t \<in> set COMMON_SKILLS \<Longrightarrow> t \<noteq> ''c++'' \<Longrightarrow>
      t \<noteq> [] \<and> isword (hd t) \<and> isword (last t)"
    by (simp add: list_all_iff)
qed

section \<open>The loops of the field extractor\<close>

lemma is_organization_code [code]: "is_organization e = group_is ''ORG'' e"
proof -
  have "startswith (upper g) ''ORG'' \<Longrightarrow> g \<noteq> []" for g
    by (auto simp: startswith_def upper_def)
  then show ?thesis
    by (auto simp: is_organization_def group_is_def split: field.splits)
qed

lemma edu_loop_filter:
  "edu_loop lines acc = acc @ map strip (filter edu_qualifies lines)"
  by (induction lines arbitrary: acc)
     (auto simp: edu_qualifies_def list_ex_iff str_in_iff [symmetric] institution_search)

lemma has_year_Nil: "\<not> has_year []"
  by (simp add: has_year_def)

lemma exp_loop_filter:
  "exp_loop lines acc = acc @ map strip (filter exp_qualifies lines)"
proof (induction lines arbitrary: acc)
  case Nil
  show ?case by simp
next
  case (Cons line rest)
  have "exp_qualifies line \<longleftrightarrow>
      re_search year_pattern (strip line) \<and>
      list_ex (\<lambda>k. str_in k (lower (strip line))) role_keywords"
    by (simp add: exp_qualifies_def role_keywords_def has_year_code str_in_iff)
  moreover have "strip line = [] \<Longrightarrow> \<not> re_search year_pattern (strip line)"
    using has_year_Nil by (simp add: has_year_code)
  ultimately show ?case
    using Cons.IH by (auto simp: Let_def)
qed

lemma cert_proj_loop_filter:
  "cert_proj_loop lines (certs, projects) =
     (certs @ map strip (filter cert_line lines),
      projects @ map strip (filter project_line lines))"
  by (induction lines arbitrary: certs projects)
     (simp_all add: cert_line_def project_line_def str_in_iff Let_def)

lemma skills_loop_set:
  "set (skills_loop xs lt acc) = set acc \<union> {t \<in> set xs. whole_word_in t lt}"
  by (induction xs arbitrary: acc) (auto simp: whole_word_in_code)

lemma skills_loop_distinct: "distinct acc \<Longrightarrow> distinct (skills_loop xs lt acc)"
  by (induction xs arbitrary: acc) auto

lemma org_words_total:
  "\<forall>e \<in> set ents. is_organization e \<longrightarrow> word e \<noteq> Absent \<Longrightarrow>
   org_words ents = Inr (map span_text (filter is_organization ents))"
  by (induction ents)
     (auto simp: is_organization_code span_text_def split: field.splits)

lemma org_words_Inl:
  "org_words ents = Inl x \<Longrightarrow>
   x = KeyError ''word'' \<and> (\<exists>e \<in> set ents. is_organization e \<and> word e = Absent)"
  by (induction ents)
     (auto simp: is_organization_code split: field.splits if_splits sum.splits)

lemma org_words_Inr:
  assumes "org_words ents = Inr orgs"
  shows "orgs = map span_text (filter is_organization ents)"
proof -
  have "\<forall>e \<in> set ents. is_organization e \<longrightarrow> word e \<noteq> Absent"
  proof (rule ccontr)
    assume "\<not> ?thesis"
    then obtain e where "e \<in> set ents" "is_organization e" "word e = Absent"
      by blast
    then have "\<exists>x. org_words ents = Inl x"
      by (induction ents)
         (auto simp: is_organization_code split: field.splits if_splits sum.splits)
    with assms show False by auto
  qed
  from org_words_total [OF this] assms show ?thesis by simp
qed

lemma build_structured_fields_eq:
  assumes "org_words ents = Inr (map span_text (filter is_organization ents))"
  shows "build_structured_fields text ents = Inr
     [(''name'', PStr (name_or_empty (find_name ents))),
      (''education'', PDict
         (if map strip (filter edu_qualifies (splitlines text)) \<noteq> []
          then [(''entries'', PList (map PStr (map strip (filter edu_qualifies (splitlines text)))))]
          else if map span_text (filter is_organization ents) \<noteq> []
               then [(''entries'', PList (take 3 (map span_text (filter is_organization ents))))]
               else [])),
      (''experience'', PDict
         (if map strip (filter exp_qualifies (splitlines text)) @
               map worked_at (take 5 (map span_text (filter is_organization ents))) \<noteq> []
          then [(''summary_lines'', PList (map PStr
                  (map strip (filter exp_qualifies (splitlines text)) @
                   map worked_at (take 5 (map span_text (filter is_organization ents))))))]
          else [])),
      (''skills'', PList (map PStr (sort (skills_loop COMMON_SKILLS (lower text) [])))),
      (''hobbies'', PList (map PStr (hobbies_loop hobby_keywords (lower text) []))),
      (''certifications'', PList (map PStr (map strip (filter cert_line (splitlines text))))),
      (''projects'', PList (map PStr (map strip (filter project_line (splitlines text))))),
      (''introduction'', PStr (intro_loop (splitlines text)))]"
  by (simp add: build_structured_fields_def education_of_def Let_def assms
      edu_loop_filter exp_loop_filter cert_proj_loop_filter)

lemma build_structured_fields_Inr:
  assumes "build_structured_fields text ents = Inr d"
  shows "d =
     [(''name'', PStr (name_or_empty (find_name ents))),
      (''education'', PDict
         (if map strip (filter edu_qualifies (splitlines text)) \<noteq> []
          then [(''entries'', PList (map PStr (map strip (filter edu_qualifies (splitlines text)))))]
          else if map span_text (filter is_organization ents) \<noteq> []
               then [(''entries'', PList (take 3 (map span_text (filter is_organization ents))))]
               else [])),
      (''experience'', PDict
         (if map strip (filter exp_qualifies (splitlines text)) @
               map worked_at (take 5 (map span_text (filter is_organization ents))) \<noteq> []
          then [(''summary_lines'', PList (map PStr
                  (map strip (filter exp_qualifies (splitlines text)) @
                   map worked_at (take 5 (map span_text (filter is_organization ents))))))]
          else [])),
      (''skills'', PList (map PStr (sort (skills_loop COMMON_SKILLS (lower text) [])))),
      (''hobbies'', PList (map PStr (hobbies_loop hobby_keywords (lower text) []))),
      (''certifications'', PList (map PStr (map strip (filter cert_line (splitlines text))))),
      (''projects'', PList (map PStr (map strip (filter project_line (splitlines text))))),
      (''introduction'', PStr (intro_loop (splitlines text)))]"
proof -
  from assms obtain orgs where o: "org_words ents = Inr orgs"
    by (auto simp: build_structured_fields_def Let_def split: sum.splits)
  then have "org_words ents = Inr (map span_text (filter is_organization ents))"
    using org_words_Inr by blast
  from build_structured_fields_eq [OF this, of "text"] assms show ?thesis
    by (simp only: sum.inject)
qed

lemma build_structured_fields_total:
  assumes "\<forall>e \<in> set ents. is_organization e \<longrightarrow> word e \<noteq> Absent"
  shows "\<exists>d. build_structured_fields text ents = Inr d"
  using build_structured_fields_eq [OF org_words_total [OF assms]] by blast


lemma normalize_entity_word: "word (normalize_entity e) \<noteq> Absent"
  by (simp add: normalize_entity_def get_field_def split: field.splits)

lemma extractor_total_on_ner_output:
  "\<exists>d. build_structured_fields text (map normalize_entity raw) = Inr d"
  by (rule build_structured_fields_total) (simp add: normalize_entity_word)

section \<open>The field extractor\<close>




lemma schema_ok_record:
  "schema_ok
     [(''name'', PStr n), (''education'', PDict e), (''experience'', PDict x),
      (''skills'', PList (map PStr s)), (''hobbies'', PList (map PStr h)),
      (''certifications'', PList (map PStr c)), (''projects'', PList (map PStr p)),
      (''introduction'', PStr i)]"
  by (simp add: schema_ok_def has_type_def list_all_iff)

text \<open>
  C3. Every record that the extractor returns has the eight fields of the schema, in
  the order of the dict literal, each with a value of its type (a string, a dict, a list
  of strings), none \<open>None\<close>; for the empty text and no entities every field is the
  empty value of its type. The extractor returns a record whenever each ORG entity
  has the key \<open>word\<close>.
\<close>

theorem record_has_every_field:
  "(\<forall>d. build_structured_fields text ents = Inr d \<longrightarrow> schema_ok d) \<and>
   build_structured_fields '''' [] =
     Inr [(''name'', PStr []), (''education'', PDict []), (''experience'', PDict []),
          (''skills'', PList []), (''hobbies'', PList []), (''certifications'', PList []),
          (''projects'', PList []), (''introduction'', PStr [])] \<and>
   ((\<forall>e \<in> set ents. is_organization e \<longrightarrow> word e \<noteq> Absent) \<longrightarrow>
      (\<exists>d. build_structured_fields text ents = Inr d))"
proof (intro conjI allI impI)
  fix d
  assume "build_structured_fields text ents = Inr d"
  from build_structured_fields_Inr [OF this] show "schema_ok d"
    by (simp only: schema_ok_record)
next
  show "build_structured_fields '''' [] =
     Inr [(''name'', PStr []), (''education'', PDict []), (''experience'', PDict []),
          (''skills'', PList []), (''hobbies'', PList []), (''certifications'', PList []),
          (''projects'', PList []), (''introduction'', PStr [])]"
    by code_simp
next
  assume "\<forall>e \<in> set ents. is_organization e \<longrightarrow> word e \<noteq> Absent"
  then show "\<exists>d. build_structured_fields text ents = Inr d"
    by (rule build_structured_fields_total)
qed

theorem record_has_every_field_witness:
  "build_structured_fields ''Python and python'' [] =
     Inr [(''name'', PStr []), (''education'', PDict []), (''experience'', PDict []),
          (''skills'', PList [PStr ''python'']), (''hobbies'', PList []),
          (''certifications'', PList []), (''projects'', PList []),
          (''introduction'', PStr [])] \<and>
   schema_ok [(''name'', PStr []), (''education'', PDict []), (''experience'', PDict []),
          (''skills'', PList [PStr ''python'']), (''hobbies'', PList []),
          (''certifications'', PList []), (''projects'', PList []),
          (''introduction'', PStr [])]"
proof -
  have e: "build_structured_fields ''Python and python'' [] =
     Inr [(''name'', PStr []), (''education'', PDict []), (''experience'', PDict []),
          (''skills'', PList [PStr ''python'']), (''hobbies'', PList []),
          (''certifications'', PList []), (''projects'', PList []),
          (''introduction'', PStr [])]"
    by code_simp
  from record_has_every_field [of "''Python and python''" "[]"] e show ?thesis
    by blast
qed

lemma count_list_distinct: "distinct xs \<Longrightarrow> x \<in> set xs \<Longrightarrow> count_list xs x = 1"
  by (induction xs) auto

text \<open>
  What the code computes: the skills of a returned record are the tokens of the fixed
  list that occur in the lower-cased text between two word boundaries of the pattern
  \<open>\\b\<close>, in strictly ascending lexicographic order (so without repetition); when
  \<open>python\<close> occurs so, it is there exactly once.
\<close>

lemma skills_are_boundary_delimited_tokens:
  assumes "build_structured_fields text ents = Inr d"
  shows "\<exists>sk. map_of d ''skills'' = Some (PList (map PStr sk)) \<and>
          sorted_wrt (<) sk \<and>
          set sk = {t \<in> set COMMON_SKILLS. whole_word_in t (lower text)} \<and>
          (whole_word_in ''python'' (lower text) \<longrightarrow> count_list sk ''python'' = 1)"
proof -
  let ?sk = "sort (skills_loop COMMON_SKILLS (lower text) [])"
  have d: "distinct ?sk"
    by (simp add: skills_loop_distinct)
  have s: "set ?sk = {t \<in> set COMMON_SKILLS. whole_word_in t (lower text)}"
    by (simp add: skills_loop_set)
  have "''python'' \<in> set COMMON_SKILLS"
    by (simp add: COMMON_SKILLS_def)
  with s have "whole_word_in ''python'' (lower text) \<longrightarrow> ''python'' \<in> set ?sk"
    by blast
  with d have c: "whole_word_in ''python'' (lower text) \<longrightarrow> count_list ?sk ''python'' = 1"
    by (blast intro: count_list_distinct)
  have "sorted_wrt (<) ?sk"
    using d by (simp add: strict_sorted_iff)
  moreover have "map_of d ''skills'' = Some (PList (map PStr ?sk))"
    by (simp add: build_structured_fields_Inr [OF assms])
  ultimately show ?thesis
    using s c by blast
qed

lemma skills_python_example:
  "build_structured_fields ''Python and python'' [] =
     Inr [(''name'', PStr []), (''education'', PDict []), (''experience'', PDict []),
          (''skills'', PList [PStr ''python'']), (''hobbies'', PList []),
          (''certifications'', PList []), (''projects'', PList []),
          (''introduction'', PStr [])] \<and>
   whole_word_in ''python'' (lower ''Python and python'') \<and>
   {t \<in> set COMMON_SKILLS. whole_word_in t (lower ''Python and python'')} = {''python''} \<and>
   count_list [''python''] ''python'' = 1"
proof -
  have e: "build_structured_fields ''Python and python'' [] =
     Inr [(''name'', PStr []), (''education'', PDict []), (''experience'', PDict []),
          (''skills'', PList [PStr ''python'']), (''hobbies'', PList []),
          (''certifications'', PList []), (''projects'', PList []),
          (''introduction'', PStr [])]"
    by code_simp
  have w: "whole_word_in ''python'' (lower ''Python and python'')"
    by code_simp
  from skills_are_boundary_delimited_tokens [OF e]
  obtain sk where m: "map_of [(''name'', PStr []), (''education'', PDict []),
          (''experience'', PDict []), (''skills'', PList [PStr ''python'']),
          (''hobbies'', PList []), (''certifications'', PList []), (''projects'', PList []),
          (''introduction'', PStr [])] ''skills'' = Some (PList (map PStr sk))"
    and s: "set sk = {t \<in> set COMMON_SKILLS. whole_word_in t (lower ''Python and python'')}"
    by blast
  from m have "map PStr sk = [PStr ''python'']"
    by simp
  then have "sk = [''python'']"
    by (cases sk) auto
  with s have "{t \<in> set COMMON_SKILLS. whole_word_in t (lower ''Python and python'')} = {''python''}"
    by simp
  moreover have "count_list [''python''] ''python'' = 1"
    by simp
  ultimately show ?thesis
    using e w by blast
qed

text \<open>
  For every token but \<open>c++\<close> that is the claimed notion: the token is among the skills
  exactly when it occurs in the lower-cased text as a whole word.
\<close>

lemma skills_but_cpp_are_ordinary_whole_words:
  assumes "build_structured_fields text ents = Inr d"
  shows "\<exists>sk. map_of d ''skills'' = Some (PList (map PStr sk)) \<and>
          sorted_wrt (<) sk \<and>
          (\<forall>t. t \<noteq> ''c++'' \<longrightarrow>
             (t \<in> set sk \<longleftrightarrow> t \<in> set COMMON_SKILLS \<and> occurs_as_word t (lower text)))"
proof -
  let ?sk = "sort (skills_loop COMMON_SKILLS (lower text) [])"
  have s: "set ?sk = {t \<in> set COMMON_SKILLS. whole_word_in t (lower text)}"
    by (simp add: skills_loop_set)
  have "t \<in> set ?sk \<longleftrightarrow> t \<in> set COMMON_SKILLS \<and> occurs_as_word t (lower text)"
    if "t \<noteq> ''c++''" for t
  proof (cases "t \<in> set COMMON_SKILLS")
    case True
    from skill_tokens_edges [OF True that]
    have "whole_word_in t (lower text) \<longleftrightarrow> occurs_as_word t (lower text)"
      by (simp add: whole_word_in_ordinary)
    with s True show ?thesis by simp
  next
    case False
    with s show ?thesis by simp
  qed
  moreover have "sorted_wrt (<) ?sk"
    by (simp add: strict_sorted_iff skills_loop_distinct)
  moreover have "map_of d ''skills'' = Some (PList (map PStr ?sk))"
    by (simp add: build_structured_fields_Inr [OF assms])
  ultimately show ?thesis
    by blast
qed

text \<open>
  C4. The claim holds for every token but \<open>c++\<close>. In \<open>I know C++ well\<close> the token
  \<open>c++\<close> occurs as a whole word of the lower-cased text, and the skills of the record
  are \<open>c\<close> alone: after the last \<open>+\<close> the pattern \<open>\\bc\\+\\+\\b\<close> asks for a word
  boundary, which a blank behind a \<open>+\<close> is not.
\<close>

theorem cpp_skill_is_missed:
  "occurs_as_word ''c++'' (lower ''I know C++ well'') \<and>
   build_structured_fields ''I know C++ well'' [] =
     Inr [(''name'', PStr []), (''education'', PDict []), (''experience'', PDict []),
          (''skills'', PList [PStr ''c'']), (''hobbies'', PList []),
          (''certifications'', PList []), (''projects'', PList []),
          (''introduction'', PStr [])]"
proof
  have l: "lower ''I know C++ well'' = ''i know '' @ ''c++'' @ '' well''"
    by code_simp
  have "\<not> list_ex isword (take 1 (rev ''i know ''))" and "\<not> list_ex isword (take 1 '' well'')"
    by code_simp+
  then show "occurs_as_word ''c++'' (lower ''I know C++ well'')"
    unfolding occurs_as_word_def l by blast
next
  show "build_structured_fields ''I know C++ well'' [] =
     Inr [(''name'', PStr []), (''education'', PDict []), (''experience'', PDict []),
          (''skills'', PList [PStr ''c'']), (''hobbies'', PList []),
          (''certifications'', PList []), (''projects'', PList []),
          (''introduction'', PStr [])]"
    by code_simp
qed

text \<open>
  C5. The education of a returned record: its entries are the lines of the text, in
  order and trimmed, that have a trimmed length above 5 and contain a degree keyword
  (as a substring of the lower-cased line) or one of university, college, institute,
  school between word boundaries; when no line qualifies, the entries are the texts of
  the first three ORG entities at most; when there is neither, education is the empty
  dict.
\<close>

theorem education_entries:
  assumes "build_structured_fields text ents = Inr d"
  shows "map_of d ''education'' = Some (PDict
     (if filter edu_qualifies (splitlines text) \<noteq> []
      then [(''entries'', PList (map PStr (map strip (filter edu_qualifies (splitlines text)))))]
      else if filter is_organization ents \<noteq> []
           then [(''entries'', PList (map span_text (take 3 (filter is_organization ents))))]
           else []))"
  by (simp add: build_structured_fields_Inr [OF assms] take_map)

theorem education_entries_witness:
  "build_structured_fields ''Hello''
     [org_span ''Acme'', org_span ''Beta'', org_span ''Gamma'', org_span ''Delta''] =
     Inr [(''name'', PStr []),
          (''education'', PDict [(''entries'', PList [PStr ''Acme'', PStr ''Beta'', PStr ''Gamma''])]),
          (''experience'', PDict [(''summary_lines'',
             PList [PStr ''Worked at Acme'', PStr ''Worked at Beta'', PStr ''Worked at Gamma'',
                    PStr ''Worked at Delta''])]),
          (''skills'', PList []), (''hobbies'', PList []), (''certifications'', PList []),
          (''projects'', PList []), (''introduction'', PStr [])] \<and>
   filter edu_qualifies (splitlines ''Hello'') = [] \<and>
   map span_text (take 3 (filter is_organization
     [org_span ''Acme'', org_span ''Beta'', org_span ''Gamma'', org_span ''Delta'']))
     = [PStr ''Acme'', PStr ''Beta'', PStr ''Gamma'']"
proof -
  have e: "build_structured_fields ''Hello''
     [org_span ''Acme'', org_span ''Beta'', org_span ''Gamma'', org_span ''Delta''] =
     Inr [(''name'', PStr []),
          (''education'', PDict [(''entries'', PList [PStr ''Acme'', PStr ''Beta'', PStr ''Gamma''])]),
          (''experience'', PDict [(''summary_lines'',
             PList [PStr ''Worked at Acme'', PStr ''Worked at Beta'', PStr ''Worked at Gamma'',
                    PStr ''Worked at Delta''])]),
          (''skills'', PList []), (''hobbies'', PList []), (''certifications'', PList []),
          (''projects'', PList []), (''introduction'', PStr [])]"
    by code_simp
  have f: "filter edu_qualifies (splitlines ''Hello'') = []"
    by code_simp
  have "filter is_organization
      [org_span ''Acme'', org_span ''Beta'', org_span ''Gamma'', org_span ''Delta''] \<noteq> []"
    by code_simp
  with education_entries [OF e] f
  have "map span_text (take 3 (filter is_organization
     [org_span ''Acme'', org_span ''Beta'', org_span ''Gamma'', org_span ''Delta'']))
     = [PStr ''Acme'', PStr ''Beta'', PStr ''Gamma'']"
    by simp
  with e f show ?thesis
    by blast
qed

lemma worked_at_span: "worked_at (span_text e) = ''Worked at '' @ span_str e"
  by (simp add: worked_at_def span_text_def span_str_def split: field.splits)

text \<open>
  C6. The experience of a returned record: its summary lines are the trimmed lines, in
  order, that contain 19 or 20 followed by two digits and a role keyword (as a substring
  of the lower-cased line), followed by one line \<open>Worked at\<close> and the entity text for
  each of the first five ORG entities at most, whether or not a line was found; when
  there is neither, experience is the empty dict.
\<close>

theorem experience_summary_lines:
  assumes "build_structured_fields text ents = Inr d"
  shows "map_of d ''experience'' = Some (PDict
     (if filter exp_qualifies (splitlines text) = [] \<and> filter is_organization ents = []
      then []
      else [(''summary_lines'', PList (map PStr
              (map strip (filter exp_qualifies (splitlines text)) @
               map (\<lambda>e. ''Worked at '' @ span_str e)
                   (take 5 (filter is_organization ents)))))]))"
proof -
  have "map worked_at (take 5 (map span_text (filter is_organization ents))) =
      map (\<lambda>e. ''Worked at '' @ span_str e) (take 5 (filter is_organization ents))"
    by (simp add: take_map worked_at_span)
  then show ?thesis
    by (simp add: build_structured_fields_Inr [OF assms])
qed

theorem experience_summary_lines_witness:
  "build_structured_fields ''  Engineer 2019 ''
     [org_span ''A'', org_span ''B'', org_span ''C'', org_span ''D'', org_span ''E'',
      org_span ''F''] =
     Inr [(''name'', PStr []),
          (''education'', PDict [(''entries'', PList [PStr ''A'', PStr ''B'', PStr ''C''])]),
          (''experience'', PDict [(''summary_lines'',
             PList [PStr ''Engineer 2019'', PStr ''Worked at A'', PStr ''Worked at B'',
                    PStr ''Worked at C'', PStr ''Worked at D'', PStr ''Worked at E''])]),
          (''skills'', PList []), (''hobbies'', PList []), (''certifications'', PList []),
          (''projects'', PList []), (''introduction'', PStr [])] \<and>
   map strip (filter exp_qualifies (splitlines ''  Engineer 2019 '')) = [''Engineer 2019'']"
proof -
  have e: "build_structured_fields ''  Engineer 2019 ''
     [org_span ''A'', org_span ''B'', org_span ''C'', org_span ''D'', org_span ''E'',
      org_span ''F''] =
     Inr [(''name'', PStr []),
          (''education'', PDict [(''entries'', PList [PStr ''A'', PStr ''B'', PStr ''C''])]),
          (''experience'', PDict [(''summary_lines'',
             PList [PStr ''Engineer 2019'', PStr ''Worked at A'', PStr ''Worked at B'',
                    PStr ''Worked at C'', PStr ''Worked at D'', PStr ''Worked at E''])]),
          (''skills'', PList []), (''hobbies'', PList []), (''certifications'', PList []),
          (''projects'', PList []), (''introduction'', PStr [])]"
    by code_simp
  have l: "map strip (filter exp_qualifies (splitlines ''  Engineer 2019 '')) = [''Engineer 2019'']"
    by code_simp
  from experience_summary_lines [OF e] e l show ?thesis
    by blast
qed

text \<open>
  C7. The certifications of a returned record are the trimmed lines, in order and with
  repetitions kept, whose lower-cased text contains certif, course or certificate; the
  projects are those whose lower-cased text contains project or github.com. A line
  that satisfies both is in both lists.
\<close>

theorem certifications_and_projects:
  assumes "build_structured_fields text ents = Inr d"
  shows "map_of d ''certifications'' =
           Some (PList (map PStr (map strip (filter cert_line (splitlines text))))) \<and>
         map_of d ''projects'' =
           Some (PList (map PStr (map strip (filter project_line (splitlines text)))))"
  by (simp add: build_structured_fields_Inr [OF assms])

theorem certifications_and_projects_witness:
  "\<exists>d. build_structured_fields
          '' Completed a certificate project on github.com \<newline>course\<newline>course'' [] = Inr d \<and>
        map_of d ''certifications'' =
          Some (PList [PStr ''Completed a certificate project on github.com'',
                       PStr ''course'', PStr ''course'']) \<and>
        map_of d ''projects'' =
          Some (PList [PStr ''Completed a certificate project on github.com''])"
proof -
  have "\<forall>e \<in> set ([] :: entity list). is_organization e \<longrightarrow> word e \<noteq> Absent"
    by simp
  from build_structured_fields_total [OF this]
  obtain d where e: "build_structured_fields
      '' Completed a certificate project on github.com \<newline>course\<newline>course'' [] = Inr d"
    by blast
  have c: "map strip (filter cert_line
      (splitlines '' Completed a certificate project on github.com \<newline>course\<newline>course'')) =
      [''Completed a certificate project on github.com'', ''course'', ''course'']"
    by code_simp
  have p: "map strip (filter project_line
      (splitlines '' Completed a certificate project on github.com \<newline>course\<newline>course'')) =
      [''Completed a certificate project on github.com'']"
    by code_simp
  from certifications_and_projects [OF e]
  have "map_of d ''certifications'' =
          Some (PList [PStr ''Completed a certificate project on github.com'',
                       PStr ''course'', PStr ''course'']) \<and>
        map_of d ''projects'' =
          Some (PList [PStr ''Completed a certificate project on github.com''])"
    unfolding c p by simp
  with e show ?thesis
    by blast
qed

section \<open>Remarks\<close>

text \<open>
  The only exception of the extractor is the \<open>KeyError\<close> of an ORG entity without the
  key \<open>word\<close>.
\<close>

lemma build_structured_fields_Inl:
  assumes "build_structured_fields text ents = Inl x"
  shows "x = KeyError ''word'' \<and> (\<exists>e \<in> set ents. is_organization e \<and> word e = Absent)"
proof -
  from assms have "org_words ents = Inl x"
    by (auto simp: build_structured_fields_def education_of_def Let_def
        split: sum.splits if_splits prod.splits)
  then show ?thesis
    by (rule org_words_Inl)
qed

text \<open>
  A word boundary lies between a word character and a character that is none (or an
  end of the text). The token \<open>c++\<close> ends in \<open>+\<close>, so a boundary after it needs a word
  character right behind it: \<open>c++\<close> followed by a blank or by the end of the text is no
  match of \<open>\\bc\\+\\+\\b\<close>, while the token \<open>c\<close> matches there.
\<close>

lemma boundary_after_plus:
  "\<not> whole_word_in ''c++'' ''i know c++ well'' \<and> whole_word_in ''c'' ''i know c++ well'' \<and>
   whole_word_in ''c++'' ''c++11''"
  by code_simp

end
